theory Spec2Isabelle
  imports Complex_Main "HOL-Library.Sublist"
begin

section \<open>JavaScript values\<close>

text \<open>
  The response of the endpoint reaches the program as the result of \<open>response.json()\<close>,
  typed \<open>unknown\<close>. The values below are the ones a JSON parser produces, and
  \<open>undefined\<close>, which every absent property reads as. Strings are byte lists (UTF-8);
  an object is the list of its own properties, in order, each name once.
\<close>

datatype jsnum = Finite rat | PosInfinity | NegInfinity | NaN

datatype jsval =
    JUndefined
  | JNull
  | JBool bool
  | JNum jsnum
  | JStr string
  | JArr "jsval list"
  | JObj "(string \<times> jsval) list"

text \<open>What a \<open>catch\<close> clause can receive: a \<open>DOMException\<close> (name, message), any other
  \<open>Error\<close> (message), or a thrown value that is no \<open>Error\<close>.\<close>

datatype js_exn = DOMException string string | JsError string | NonError

definition nullish :: "jsval \<Rightarrow> bool" where
  "nullish v = (v = JUndefined \<or> v = JNull)"

text \<open>\<open>!v\<close> is true for the falsy values: \<open>undefined\<close>, \<open>null\<close>, \<open>false\<close>, \<open>0\<close>,
  \<open>NaN\<close> and the empty string.\<close>

fun falsy :: "jsval \<Rightarrow> bool" where
  "falsy JUndefined = True"
| "falsy JNull = True"
| "falsy (JBool b) = (b = False)"
| "falsy (JNum (Finite q)) = (q = 0)"
| "falsy (JNum NaN) = True"
| "falsy (JNum PosInfinity) = False"
| "falsy (JNum NegInfinity) = False"
| "falsy (JStr s) = (s = [])"
| "falsy (JArr xs) = False"
| "falsy (JObj kvs) = False"

definition digit_char :: "nat \<Rightarrow> char" where
  "digit_char d = ''0123456789'' ! (d mod 10)"

text \<open>The decimal text of a non-negative integer, as a template literal or a property
  key renders it.\<close>

fun show_nat :: "nat \<Rightarrow> string" where
  "show_nat n = (if n < 10 then [digit_char n] else show_nat (n div 10) @ [digit_char n])"

declare show_nat.simps [simp del]

definition own_property :: "(string \<times> jsval) list \<Rightarrow> string \<Rightarrow> jsval" where
  "own_property kvs k = (case map_of kvs k of Some v \<Rightarrow> v | None \<Rightarrow> JUndefined)"

text \<open>
  \<open>v.k\<close> on a value that is neither \<open>null\<close> nor \<open>undefined\<close>, for a property name
  \<open>k\<close> that is no built-in member (the program reads \<open>choices\<close>, \<open>message\<close>,
  \<open>content\<close>, \<open>output\<close> and \<open>data\<close>): an object gives its own property, every other
  value gives \<open>undefined\<close>.
\<close>

fun get_property :: "jsval \<Rightarrow> string \<Rightarrow> jsval" where
  "get_property (JObj kvs) k = own_property kvs k"
| "get_property v k = JUndefined"

text \<open>\<open>v[i]\<close> on such a value: an array element, one unit of a string, or the object's
  property named by the decimal text of \<open>i\<close>; \<open>undefined\<close> out of range.\<close>

fun get_index :: "jsval \<Rightarrow> nat \<Rightarrow> jsval" where
  "get_index (JArr xs) i = (if i < length xs then xs ! i else JUndefined)"
| "get_index (JStr s) i = (if i < length s then JStr [s ! i] else JUndefined)"
| "get_index (JObj kvs) i = own_property kvs (show_nat i)"
| "get_index v i = JUndefined"

text \<open>Plain member access raises a \<open>TypeError\<close> on \<open>null\<close> and \<open>undefined\<close>.\<close>

definition member :: "jsval \<Rightarrow> string \<Rightarrow> js_exn + jsval" where
  "member v k = (if nullish v then Inl (JsError ''TypeError'') else Inr (get_property v k))"

text \<open>Optional chaining, \<open>v?.k\<close> and \<open>v?.[i]\<close>, gives \<open>undefined\<close> there instead.\<close>

definition opt_member :: "jsval \<Rightarrow> string \<Rightarrow> jsval" where
  "opt_member v k = (if nullish v then JUndefined else get_property v k)"

definition opt_index :: "jsval \<Rightarrow> nat \<Rightarrow> jsval" where
  "opt_index v i = (if nullish v then JUndefined else get_index v i)"

text \<open>\<open>typeof v === 'string'\<close>.\<close>

fun typeof_string :: "jsval \<Rightarrow> bool" where
  "typeof_string (JStr s) = True"
| "typeof_string v = False"

text \<open>
  \<open>v.length > 0\<close>: the length of a string or an array; a \<open>TypeError\<close> on \<open>null\<close> and
  \<open>undefined\<close>; numbers and booleans have no \<open>length\<close>, and \<open>undefined > 0\<close> is false;
  an object is read at its own \<open>length\<close> property, where a number or a boolean is
  compared as a number (the conversion of any other value to a number is left out, and
  such a value counts as not positive). The program applies it behind a \<open>typeof\<close>
  guard, to strings.
\<close>

fun num_positive :: "jsnum \<Rightarrow> bool" where
  "num_positive (Finite q) = (0 < q)"
| "num_positive PosInfinity = True"
| "num_positive NegInfinity = False"
| "num_positive NaN = False"

fun length_positive :: "jsval \<Rightarrow> js_exn + bool" where
  "length_positive JUndefined = Inl (JsError ''TypeError'')"
| "length_positive JNull = Inl (JsError ''TypeError'')"
| "length_positive (JStr s) = Inr (0 < length s)"
| "length_positive (JArr xs) = Inr (0 < length xs)"
| "length_positive (JObj kvs) =
     Inr (case own_property kvs ''length'' of
            JNum n \<Rightarrow> num_positive n
          | JBool b \<Rightarrow> b
          | _ \<Rightarrow> False)"
| "length_positive v = Inr False"

text \<open>The string a value narrowed to \<open>string\<close> is returned as.\<close>

fun string_of :: "jsval \<Rightarrow> string" where
  "string_of (JStr s) = s"
| "string_of v = []"

section \<open>The response extractor\<close>

definition bind_exn :: "js_exn + 'a \<Rightarrow> ('a \<Rightarrow> js_exn + 'b) \<Rightarrow> js_exn + 'b" where
  "bind_exn r f = (case r of Inl e \<Rightarrow> Inl e | Inr x \<Rightarrow> f x)"

text \<open>The third probe and the fallback of \<open>extractAssistantText\<close>.\<close>

definition extract_nested :: "jsval \<Rightarrow> js_exn + string" where
  "extract_nested data =
     (let nestedContent =
            opt_member (opt_member (opt_index (opt_member (opt_member data ''data'')
              ''choices'') 0) ''message'') ''content''
      in if typeof_string nestedContent \<and> 0 < length (string_of nestedContent)
         then Inr (string_of nestedContent)
         else Inr [])"

text \<open>The second probe: the guard uses optional chaining, its right operand and the
  returned expression use plain member access.\<close>

definition extract_output :: "jsval \<Rightarrow> js_exn + string" where
  "extract_output data =
     (if typeof_string (opt_member (opt_member data ''output'') ''content'')
      then bind_exn (member data ''output'') (\<lambda>out.
           bind_exn (member out ''content'') (\<lambda>c.
           bind_exn (length_positive c) (\<lambda>pos.
             if pos
             then bind_exn (member data ''output'') (\<lambda>out'.
                  bind_exn (member out' ''content'') (\<lambda>c'. Inr (string_of c')))
             else extract_nested data)))
      else extract_nested data)"

text \<open>The body of the \<open>try\<close> block.\<close>

definition extractAssistantText_try :: "jsval \<Rightarrow> js_exn + string" where
  "extractAssistantText_try data =
     (let openAiText =
            opt_member (opt_member (opt_index (opt_member data ''choices'') 0)
              ''message'') ''content''
      in if typeof_string openAiText \<and> 0 < length (string_of openAiText)
         then Inr (string_of openAiText)
         else extract_output data)"

definition extractAssistantText :: "jsval \<Rightarrow> string" where
  "extractAssistantText data =
     (case extractAssistantText_try data of Inl e \<Rightarrow> [] | Inr s \<Rightarrow> s)"

section \<open>The request builder\<close>

datatype role = System | User | Assistant

record chat_message =
  role :: role
  content :: string

record chat_request =
  model :: string
  messages :: "chat_message list"
  temperature :: "jsnum option"
  max_tokens :: "jsnum option"

definition DEFAULT_MODEL :: string where
  "DEFAULT_MODEL = ''deepseek-chat''"

definition API_URL :: string where
  "API_URL = ''/qwen-api/deepseek/single-prompt''"

definition FETCH_TIMEOUT_MS :: nat where
  "FETCH_TIMEOUT_MS = 120000"

definition requestPayload :: "string \<Rightarrow> chat_request" where
  "requestPayload p =
     \<lparr> model = DEFAULT_MODEL,
       messages = [ \<lparr> role = System, content = ''You are a helpful assistant.'' \<rparr>,
                    \<lparr> role = User, content = p \<rparr> ],
       temperature = None,
       max_tokens = None \<rparr>"

section \<open>The escape normalizer\<close>

definition bs :: char where
  "bs = CHR 0x5C"

definition nl :: char where
  "nl = CHR 0x0A"

text \<open>
  \<open>s.replace(/pat/g, rep)\<close> for a pattern that is a fixed, non-empty text and a
  replacement without \<open>$\<close>: the matches are found from left to right, each search
  starting behind the previous match.
\<close>

fun replace_all :: "string \<Rightarrow> string \<Rightarrow> string \<Rightarrow> string" where
  "replace_all pat rep [] = []"
| "replace_all pat rep (c # cs) =
     (if pat \<noteq> [] \<and> prefix pat (c # cs)
      then rep @ replace_all pat rep (drop (length pat) (c # cs))
      else c # replace_all pat rep cs)"

text \<open>The three patterns: backslash, \<open>r\<close>, backslash, \<open>n\<close>; backslash, \<open>n\<close>;
  backslash, \<open>t\<close>.\<close>

definition pat_rn :: string where
  "pat_rn = [bs, CHR ''r'', bs, CHR ''n'']"

definition pat_n :: string where
  "pat_n = [bs, CHR ''n'']"

definition pat_t :: string where
  "pat_t = [bs, CHR ''t'']"

definition four_spaces :: string where
  "four_spaces = ''    ''"

text \<open>The chain of the three \<open>replace\<close> calls, on a string.\<close>

definition unescape_string :: "string \<Rightarrow> string" where
  "unescape_string s =
     replace_all pat_t four_spaces (replace_all pat_n [nl] (replace_all pat_rn [nl] s))"

text \<open>
  The parameter is typed \<open>string | undefined | null\<close>, and a caller hands it a value
  read from the response: every falsy value gives the empty string, a string goes
  through the three replacements, and any other value has no \<open>replace\<close> method, so
  that the call raises a \<open>TypeError\<close>.
\<close>

definition unescapeNewlinesAndTabs :: "jsval \<Rightarrow> js_exn + string" where
  "unescapeNewlinesAndTabs v =
     (if falsy v then Inr []
      else case v of
             JStr s \<Rightarrow> Inr (unescape_string s)
           | _ \<Rightarrow> Inl (JsError ''TypeError''))"

text \<open>
  The normalizer as the specification words it, in one pass from left to right: at
  each position the four-character sequence and the two two-character sequences are
  replaced, any other character is kept.
\<close>

fun unescape_scan :: "string \<Rightarrow> string" where
  "unescape_scan [] = []"
| "unescape_scan (c # cs) =
     (if prefix pat_rn (c # cs) then nl # unescape_scan (drop 3 cs)
      else if prefix pat_n (c # cs) then nl # unescape_scan (drop 1 cs)
      else if prefix pat_t (c # cs) then four_spaces @ unescape_scan (drop 1 cs)
      else c # unescape_scan cs)"

section \<open>The component state and its renderings\<close>

datatype response_view = JsonView | ContentView

record app_state =
  prompt :: string
  assistantText :: string
  loading :: bool
  error :: "string option"
  rawResponse :: jsval
  responseView :: response_view

definition initial_state :: app_state where
  "initial_state =
     \<lparr> prompt = ''Explain how transformers process tokens in simple terms.'',
       assistantText = [],
       loading = False,
       error = None,
       rawResponse = JNull,
       responseView = JsonView \<rparr>"

text \<open>
  The built-in functions of the platform that the component calls and the repository
  does not define: \<open>String.prototype.trim\<close>, \<open>JSON.stringify(v, null, 2)\<close> (which may
  throw) and \<open>String(v)\<close>.
\<close>

record builtins =
  trim :: "string \<Rightarrow> string"
  stringify :: "jsval \<Rightarrow> js_exn + string"
  to_string :: "jsval \<Rightarrow> string"

text \<open>The placeholder, an em dash (U+2014).\<close>

definition placeholder_dash :: string where
  "placeholder_dash = [CHR 0xE2, CHR 0x80, CHR 0x94]"

definition responseJsonString :: "builtins \<Rightarrow> jsval \<Rightarrow> string" where
  "responseJsonString B raw =
     (if falsy raw then placeholder_dash
      else case stringify B raw of
             Inr s \<Rightarrow> s
           | Inl e \<Rightarrow> to_string B raw)"

definition outputContentUnescaped :: "jsval \<Rightarrow> string" where
  "outputContentUnescaped raw =
     (case unescapeNewlinesAndTabs (opt_member (opt_member raw ''output'') ''content'') of
        Inr s \<Rightarrow> s
      | Inl e \<Rightarrow> [])"

text \<open>The text of the response pane:
  \<open>responseView === 'json' ? responseJsonString : (outputContentUnescaped || dash)\<close>.\<close>

definition content_rendering :: "jsval \<Rightarrow> string" where
  "content_rendering raw =
     (if outputContentUnescaped raw = [] then placeholder_dash
      else outputContentUnescaped raw)"

definition response_pane :: "builtins \<Rightarrow> app_state \<Rightarrow> string" where
  "response_pane B st =
     (if responseView st = JsonView then responseJsonString B (rawResponse st)
      else content_rendering (rawResponse st))"

section \<open>Sending a prompt\<close>

text \<open>
  What \<open>fetch\<close> hands back: the status, the \<open>ok\<close> flag, and what reading the body as
  text or as JSON gives (either may reject). The call itself resolves with a response
  or rejects; when the timer fires first, \<open>controller.abort()\<close> makes it reject with a
  \<open>DOMException\<close> named \<open>AbortError\<close>.
\<close>

record http_response =
  status :: nat
  ok :: bool
  body_text :: "js_exn + string"
  body_json :: "js_exn + jsval"

datatype fetch_outcome = Rejected js_exn | Resolved http_response

text \<open>The call that \<open>handleSend\<close> issues: the request, whose body is the JSON text of
  the payload, and the delay of the timer that aborts it.\<close>

record http_request =
  req_method :: string
  req_url :: string
  req_headers :: "(string \<times> string) list"
  req_payload :: chat_request
  req_abort_after_ms :: nat

text \<open>\<open>handleSend\<close> up to the \<open>await\<close>: the four state updates and the call.\<close>

definition handleSend_begin :: "app_state \<Rightarrow> app_state \<times> http_request" where
  "handleSend_begin st =
     (st\<lparr> loading := True, error := None, assistantText := [], rawResponse := JNull \<rparr>,
      \<lparr> req_method = ''POST'',
        req_url = API_URL,
        req_headers = [(''Content-Type'', ''application/json'')],
        req_payload = requestPayload (prompt st),
        req_abort_after_ms = FETCH_TIMEOUT_MS \<rparr>)"

text \<open>The rest of the \<open>try\<close> block: the value stored as the raw response, or what is
  thrown.\<close>

definition handleSend_try :: "fetch_outcome \<Rightarrow> js_exn + jsval" where
  "handleSend_try outcome =
     (case outcome of
        Rejected e \<Rightarrow> Inl e
      | Resolved response \<Rightarrow>
          if \<not> ok response
          then bind_exn (body_text response) (\<lambda>text.
                 Inl (JsError (''HTTP '' @ show_nat (status response) @ '': '' @ text)))
          else body_json response)"

text \<open>The \<open>catch\<close> clause. A \<open>DOMException\<close> is an \<open>Error\<close>; the timeout is shown in
  seconds, \<open>FETCH_TIMEOUT_MS / 1000\<close>, a whole number.\<close>

definition catch_message :: "js_exn \<Rightarrow> string" where
  "catch_message e =
     (case e of
        DOMException name msg \<Rightarrow>
          if name = ''AbortError''
          then ''Request timed out after '' @ show_nat (FETCH_TIMEOUT_MS div 1000) @ ''s''
          else msg
      | JsError msg \<Rightarrow> msg
      | NonError \<Rightarrow> ''Unknown error'')"

text \<open>\<open>handleSend\<close> from the settled call on, \<open>finally\<close> included.\<close>

definition handleSend_settle :: "app_state \<Rightarrow> fetch_outcome \<Rightarrow> app_state" where
  "handleSend_settle st outcome =
     (case handleSend_try outcome of
        Inr data \<Rightarrow>
          st\<lparr> rawResponse := data, assistantText := extractAssistantText data,
              loading := False \<rparr>
      | Inl e \<Rightarrow> st\<lparr> error := Some (catch_message e), loading := False \<rparr>)"

text \<open>The send button: \<open>disabled={loading || !prompt.trim()}\<close>; a disabled button
  does not call its handler.\<close>

definition send_disabled :: "builtins \<Rightarrow> app_state \<Rightarrow> bool" where
  "send_disabled B st = (loading st \<or> trim B (prompt st) = [])"

definition click_send :: "builtins \<Rightarrow> app_state \<Rightarrow> app_state \<times> http_request option" where
  "click_send B st =
     (if send_disabled B st then (st, None)
      else (fst (handleSend_begin st), Some (snd (handleSend_begin st))))"

text \<open>
  The session: the component state, the number of calls that have been issued and
  have not settled, and the time in milliseconds left on the timer that
  \<open>handleSend\<close> armed last, while that timer is armed.

  The events are the user's actions, the passing of time, and what the network
  does: the awaited \<open>fetch\<close> resolves with a response whose body is still to be
  read, or the call settles as a whole (it rejects, or it resolves and the body is
  read).
\<close>

record session =
  app :: app_state
  in_flight :: nat
  abort_timer :: "nat option"

datatype event =
    ClickSend
  | ResponseArrived
  | FetchSettled fetch_outcome
  | TimePasses nat
  | PromptChanged string
  | ViewToggled bool

definition initial_session :: session where
  "initial_session = \<lparr> app = initial_state, in_flight = 0, abort_timer = None \<rparr>"

text \<open>What \<open>controller.abort()\<close> makes a pending \<open>fetch\<close> reject with. The message is
  the platform's; the \<open>catch\<close> clause does not read it.\<close>

definition abort_rejection :: fetch_outcome where
  "abort_rejection = Rejected (DOMException ''AbortError'' ''The operation was aborted.'')"

text \<open>
  A click arms the timer with the delay of the request, \<open>setTimeout(..., FETCH_TIMEOUT_MS)\<close>.
  The timer is cleared when \<open>fetch\<close> resolves (\<open>clearTimeout(timer)\<close> behind the
  \<open>await\<close>), and not when it rejects. When the time left runs out the timer fires
  and calls \<open>controller.abort()\<close>: a pending call rejects with the abort, a call that
  is over is not affected.
\<close>

fun step :: "builtins \<Rightarrow> session \<Rightarrow> event \<Rightarrow> session" where
  "step B s ClickSend =
     (case click_send B (app s) of
        (st, None) \<Rightarrow> s\<lparr> app := st \<rparr>
      | (st, Some req) \<Rightarrow>
          \<lparr> app = st, in_flight = in_flight s + 1,
            abort_timer = Some (req_abort_after_ms req) \<rparr>)"
| "step B s ResponseArrived =
     (if in_flight s = 0 then s else s\<lparr> abort_timer := None \<rparr>)"
| "step B s (FetchSettled outcome) =
     (if in_flight s = 0 then s
      else \<lparr> app = handleSend_settle (app s) outcome, in_flight = in_flight s - 1,
             abort_timer = (case outcome of
                              Resolved response \<Rightarrow> None
                            | Rejected e \<Rightarrow> abort_timer s) \<rparr>)"
| "step B s (TimePasses d) =
     (case abort_timer s of
        None \<Rightarrow> s
      | Some t \<Rightarrow>
          if d < t then s\<lparr> abort_timer := Some (t - d) \<rparr>
          else if in_flight s = 0 then s\<lparr> abort_timer := None \<rparr>
          else \<lparr> app = handleSend_settle (app s) abort_rejection,
                 in_flight = in_flight s - 1, abort_timer = None \<rparr>)"
| "step B s (PromptChanged p) = s\<lparr> app := (app s)\<lparr> prompt := p \<rparr> \<rparr>"
| "step B s (ViewToggled checked) =
     s\<lparr> app := (app s)\<lparr> responseView := (if checked then ContentView else JsonView) \<rparr> \<rparr>"

definition run :: "builtins \<Rightarrow> session \<Rightarrow> event list \<Rightarrow> session" where
  "run B s es = foldl (step B) s es"

text \<open>An event is quiet when the network does nothing in it: no response arrives and
  the call does not settle. The time that a list of events takes is the sum of its
  waits.\<close>

fun quiet :: "event \<Rightarrow> bool" where
  "quiet ResponseArrived = False"
| "quiet (FetchSettled outcome) = False"
| "quiet e = True"

fun elapsed :: "event list \<Rightarrow> nat" where
  "elapsed [] = 0"
| "elapsed (TimePasses d # es) = d + elapsed es"
| "elapsed (e # es) = elapsed es"

text \<open>A session that waits for its one call, with \<open>t\<close> milliseconds left on the
  timer and nothing of the previous response kept.\<close>

definition awaiting :: "nat \<Rightarrow> session \<Rightarrow> bool" where
  "awaiting t s =
     (in_flight s = 1 \<and> loading (app s) \<and> abort_timer s = Some t
      \<and> error (app s) = None \<and> rawResponse (app s) = JNull \<and> assistantText (app s) = [])"

text \<open>The invariant of the session: at most one call has not settled, and the
  loading flag is set exactly while one has not.\<close>

definition session_inv :: "session \<Rightarrow> bool" where
  "session_inv s = (in_flight s \<le> 1 \<and> (loading (app s) = (in_flight s = 1)))"

section \<open>The probes as the specification words them\<close>

text \<open>A path into a value: property names and array indices, each step tolerant of a
  missing or wrongly typed base.\<close>

datatype path_step = Key string | Idx nat

fun lookup_step :: "jsval \<Rightarrow> path_step \<Rightarrow> jsval" where
  "lookup_step v (Key k) = opt_member v k"
| "lookup_step v (Idx i) = opt_index v i"

definition lookup_path :: "jsval \<Rightarrow> path_step list \<Rightarrow> jsval" where
  "lookup_path v p = foldl lookup_step v p"

definition probe_paths :: "path_step list list" where
  "probe_paths =
     [ [Key ''choices'', Idx 0, Key ''message'', Key ''content''],
       [Key ''output'', Key ''content''],
       [Key ''data'', Key ''choices'', Idx 0, Key ''message'', Key ''content''] ]"

text \<open>The first non-empty string among the candidates, the empty string if there is
  none.\<close>

fun first_nonempty_string :: "jsval list \<Rightarrow> string" where
  "first_nonempty_string [] = []"
| "first_nonempty_string (JStr s # vs) = (if s = [] then first_nonempty_string vs else s)"
| "first_nonempty_string (v # vs) = first_nonempty_string vs"

definition both_shapes :: jsval where
  "both_shapes =
     JObj [ (''choices'', JArr [JObj [(''message'', JObj [(''content'', JStr ''A'')])]]),
            (''output'', JObj [(''content'', JStr ''B'')]) ]"

text \<open>The shapes that the extractor has to tolerate: the empty object, \<open>null\<close> at each
  level, arrays that are too short, wrongly typed fields and values that are no
  objects.\<close>

definition tolerated_shapes :: "jsval list" where
  "tolerated_shapes =
     [ JObj [],
       JNull,
       JUndefined,
       JObj [(''choices'', JNull)],
       JObj [(''choices'', JArr [])],
       JObj [(''choices'', JArr [JNull])],
       JObj [(''choices'', JArr [JObj []])],
       JObj [(''choices'', JArr [JObj [(''message'', JNull)]])],
       JObj [(''choices'', JArr [JObj [(''message'', JObj [(''content'', JNull)])]])],
       JObj [(''choices'', JArr [JObj [(''message'', JObj [(''content'', JNum (Finite 5))])]])],
       JObj [(''choices'', JArr [JObj [(''message'', JObj [(''content'', JStr [])])]])],
       JObj [(''choices'', JStr ''abc'')],
       JObj [(''output'', JNull)],
       JObj [(''output'', JObj [(''content'', JNull)])],
       JObj [(''output'', JObj [(''content'', JArr [JStr ''x''])])],
       JObj [(''output'', JStr ''text'')],
       JObj [(''data'', JNull)],
       JObj [(''data'', JObj [(''choices'', JArr [])])],
       JObj [(''data'', JObj [(''choices'', JArr [JObj [(''message'', JNull)]])])],
       JNum (Finite 0),
       JBool True,
       JStr ''choices'',
       JArr [] ]"

text \<open>A response of the OpenAI shape only.\<close>

definition openai_shape :: jsval where
  "openai_shape =
     JObj [(''choices'', JArr [JObj [(''message'', JObj [(''content'', JStr ''A'')])]])]"

text \<open>A successful response whose body is no JSON text, with the message of the
  parser's \<open>SyntaxError\<close>; an HTTP 500 with the body \<open>server error\<close>; a successful
  response whose body is the empty object.\<close>

definition invalid_json_response :: http_response where
  "invalid_json_response =
     \<lparr> status = 200, ok = True, body_text = Inr ''<html>'',
       body_json = Inl (JsError ''Unexpected token < in JSON at position 0'') \<rparr>"

definition server_error_response :: http_response where
  "server_error_response =
     \<lparr> status = 500, ok = False, body_text = Inr ''server error'',
       body_json = Inl (JsError ''Unexpected token s in JSON at position 0'') \<rparr>"

definition empty_object_response :: http_response where
  "empty_object_response =
     \<lparr> status = 200, ok = True, body_text = Inr ''{}'', body_json = Inr (JObj []) \<rparr>"

text \<open>An instance of the built-in functions for the examples: \<open>trim\<close> on ASCII
  white space, and the JSON text of the empty object, the only value the examples
  render.\<close>

definition ascii_space :: "char \<Rightarrow> bool" where
  "ascii_space c = (c \<in> set [CHR 0x09, CHR 0x0A, CHR 0x0B, CHR 0x0C, CHR 0x0D, CHR 0x20])"

definition ascii_trim :: "string \<Rightarrow> string" where
  "ascii_trim s = rev (dropWhile ascii_space (rev (dropWhile ascii_space s)))"

definition example_builtins :: builtins where
  "example_builtins =
     \<lparr> trim = ascii_trim,
       stringify = (\<lambda>v. if v = JObj [] then Inr ''{}'' else Inl (JsError ''not rendered'')),
       to_string = (\<lambda>v. ''[object Object]'') \<rparr>"

section \<open>Properties of the extractor\<close>

lemma member_opt_member:
  "member v k = (if nullish v then Inl (JsError ''TypeError'') else Inr (opt_member v k))"
  by (simp add: member_def opt_member_def)

lemma typeof_string_conv: "typeof_string v \<longleftrightarrow> (\<exists>s. v = JStr s)"
  by (cases v) simp_all

lemma first_nonempty_string_Cons:
  "first_nonempty_string (v # vs) =
     (if typeof_string v \<and> 0 < length (string_of v) then string_of v
      else first_nonempty_string vs)"
  by (cases v) simp_all

lemma extract_nested_eq:
  "extract_nested data =
     Inr (first_nonempty_string
            [lookup_path data [Key ''data'', Key ''choices'', Idx 0, Key ''message'', Key ''content'']])"
  by (simp add: extract_nested_def lookup_path_def Let_def first_nonempty_string_Cons)

lemma extract_output_eq:
  "extract_output data =
     (case lookup_path data [Key ''output'', Key ''content''] of
        JStr s \<Rightarrow> if s = [] then extract_nested data else Inr s
      | _ \<Rightarrow> extract_nested data)"
proof (cases "typeof_string (opt_member (opt_member data ''output'') ''content'')")
  case False
  then show ?thesis
    by (auto simp: extract_output_def lookup_path_def split: jsval.splits)
next
  case True
  then obtain s where s: "opt_member (opt_member data ''output'') ''content'' = JStr s"
    by (auto simp: typeof_string_conv)
  have n1: "\<not> nullish (opt_member data ''output'')"
    using s by (auto simp: opt_member_def)
  have n0: "\<not> nullish data"
    using n1 by (auto simp: opt_member_def nullish_def)
  show ?thesis
    using s n0 n1
    by (simp add: extract_output_def lookup_path_def member_opt_member bind_exn_def)
qed

lemma extractAssistantText_try_eq:
  "extractAssistantText_try data =
     Inr (first_nonempty_string (map (lookup_path data) probe_paths))"
proof -
  let ?p2 = "lookup_path data [Key ''output'', Key ''content'']"
  have out: "extract_output data =
      (if typeof_string ?p2 \<and> 0 < length (string_of ?p2) then Inr (string_of ?p2)
       else extract_nested data)"
    unfolding extract_output_eq by (cases ?p2) simp_all
  show ?thesis
    unfolding extractAssistantText_try_def out extract_nested_eq
    by (simp add: probe_paths_def Let_def lookup_path_def first_nonempty_string_Cons)
qed

text \<open>
  C1. For every value, \<open>extractAssistantText\<close> returns the first non-empty string found
  by probing \<open>choices[0].message.content\<close>, then \<open>output.content\<close>, then
  \<open>data.choices[0].message.content\<close>, and the empty string if no probe yields one; on
  the value holding both \<open>choices[0].message.content = "A"\<close> and
  \<open>output.content = "B"\<close> it returns \<open>"A"\<close>.
\<close>

theorem extractAssistantText_priority:
  "extractAssistantText data = first_nonempty_string (map (lookup_path data) probe_paths)
   \<and> extractAssistantText both_shapes = ''A''"
proof
  show "extractAssistantText data = first_nonempty_string (map (lookup_path data) probe_paths)"
    by (simp add: extractAssistantText_def extractAssistantText_try_eq)
  show "extractAssistantText both_shapes = ''A''"
    by (simp add: extractAssistantText_def extractAssistantText_try_def both_shapes_def
                  opt_member_def opt_index_def nullish_def own_property_def)
qed

text \<open>
  C2. \<open>extractAssistantText\<close> never raises: for every value the body of its \<open>try\<close>
  block already returns a string, without reaching the \<open>catch\<close> clause, and on the
  empty object, on \<open>null\<close> at any level, on values that are no objects, on wrongly
  typed fields and on arrays that are too short the result is the empty string.
\<close>

theorem extractAssistantText_never_raises:
  "(\<exists>s. extractAssistantText_try data = Inr s \<and> extractAssistantText data = s)
   \<and> map extractAssistantText tolerated_shapes = map (\<lambda>v. []) tolerated_shapes"
proof
  show "\<exists>s. extractAssistantText_try data = Inr s \<and> extractAssistantText data = s"
    by (simp add: extractAssistantText_def extractAssistantText_try_eq)
  show "map extractAssistantText tolerated_shapes = map (\<lambda>v. []) tolerated_shapes"
    by (simp add: tolerated_shapes_def extractAssistantText_def extractAssistantText_try_eq
                  probe_paths_def lookup_path_def opt_member_def opt_index_def nullish_def
                  own_property_def show_nat.simps digit_char_def)
qed

section \<open>Properties of the request builder\<close>

text \<open>
  C3. For every prompt, the empty one included, the payload has the model
  \<open>deepseek-chat\<close> and exactly two messages: the system message with the fixed
  instruction, then the user message whose content is the prompt itself, unchanged;
  it is the payload of the request that \<open>handleSend\<close> issues.
\<close>

theorem requestPayload_two_messages:
  "model (requestPayload p) = ''deepseek-chat''
   \<and> messages (requestPayload p) =
       [ \<lparr> role = System, content = ''You are a helpful assistant.'' \<rparr>,
         \<lparr> role = User, content = p \<rparr> ]
   \<and> length (messages (requestPayload p)) = 2
   \<and> role (messages (requestPayload p) ! 1) = User
   \<and> content (messages (requestPayload p) ! 1) = p
   \<and> content (messages (requestPayload []) ! 1) = []
   \<and> req_payload (snd (handleSend_begin st)) = requestPayload (prompt st)"
  by (simp add: requestPayload_def DEFAULT_MODEL_def handleSend_begin_def)

section \<open>Properties of sending\<close>

lemma show_nat_120: "show_nat 120 = ''120''"
  by (simp add: show_nat.simps digit_char_def)

text \<open>
  C7. When the server answers with a status that is no success, the session is
  Failed: an error message is set, loading is over, and no raw response and no text
  are stored. With the body text read, the message holds the status code and the body
  text; HTTP 500 with the body \<open>server error\<close> gives \<open>HTTP 500: server error\<close>.
\<close>

theorem http_error_message:
  "(\<not> ok r \<longrightarrow>
      error (handleSend_settle (fst (handleSend_begin st)) (Resolved r)) \<noteq> None
      \<and> loading (handleSend_settle (fst (handleSend_begin st)) (Resolved r)) = False
      \<and> rawResponse (handleSend_settle (fst (handleSend_begin st)) (Resolved r)) = JNull
      \<and> assistantText (handleSend_settle (fst (handleSend_begin st)) (Resolved r)) = [])
   \<and> (\<not> ok r \<and> body_text r = Inr body \<longrightarrow>
        error (handleSend_settle (fst (handleSend_begin st)) (Resolved r))
          = Some (''HTTP '' @ show_nat (status r) @ '': '' @ body)
        \<and> sublist (show_nat (status r)) (''HTTP '' @ show_nat (status r) @ '': '' @ body)
        \<and> sublist body (''HTTP '' @ show_nat (status r) @ '': '' @ body))"
proof (intro conjI impI)
  assume a: "\<not> ok r"
  then obtain e where t: "handleSend_try (Resolved r) = Inl e"
    by (cases "body_text r") (simp_all add: handleSend_try_def bind_exn_def)
  show "error (handleSend_settle (fst (handleSend_begin st)) (Resolved r)) \<noteq> None"
    by (simp add: handleSend_settle_def t)
  show "loading (handleSend_settle (fst (handleSend_begin st)) (Resolved r)) = False"
    by (simp add: handleSend_settle_def t)
  show "rawResponse (handleSend_settle (fst (handleSend_begin st)) (Resolved r)) = JNull"
    by (simp add: handleSend_settle_def t handleSend_begin_def)
  show "assistantText (handleSend_settle (fst (handleSend_begin st)) (Resolved r)) = []"
    by (simp add: handleSend_settle_def t handleSend_begin_def)
next
  assume a: "\<not> ok r \<and> body_text r = Inr body"
  then have t: "handleSend_try (Resolved r)
                  = Inl (JsError (''HTTP '' @ show_nat (status r) @ '': '' @ body))"
    by (simp add: handleSend_try_def bind_exn_def)
  show "error (handleSend_settle (fst (handleSend_begin st)) (Resolved r))
          = Some (''HTTP '' @ show_nat (status r) @ '': '' @ body)"
    by (simp add: handleSend_settle_def t catch_message_def)
  show "sublist (show_nat (status r)) (''HTTP '' @ show_nat (status r) @ '': '' @ body)"
    by (rule sublist_appendI)
  have "sublist body ((''HTTP '' @ show_nat (status r) @ '': '') @ body @ [])"
    by (rule sublist_appendI)
  then show "sublist body (''HTTP '' @ show_nat (status r) @ '': '' @ body)" by simp
qed

theorem http_error_message_witness:
  "\<not> ok server_error_response \<and> body_text server_error_response = Inr ''server error''
   \<and> loading (handleSend_settle (fst (handleSend_begin initial_state))
                (Resolved server_error_response)) = False
   \<and> error (handleSend_settle (fst (handleSend_begin initial_state))
              (Resolved server_error_response))
       = Some ''HTTP 500: server error''
   \<and> sublist ''500'' ''HTTP 500: server error''
   \<and> sublist ''server error'' ''HTTP 500: server error''"
  using http_error_message
          [where r = server_error_response and body = "''server error''"
             and st = initial_state]
  by (simp add: server_error_response_def show_nat.simps digit_char_def)

section \<open>Properties of the escape normalizer\<close>

lemmas escape_chars = pat_rn_def pat_n_def pat_t_def four_spaces_def bs_def nl_def

lemma replace_all_other:
  "pat \<noteq> [] \<Longrightarrow> c \<noteq> hd pat \<Longrightarrow> replace_all pat rep (c # cs) = c # replace_all pat rep cs"
  by (cases pat) auto

text \<open>A replacement does not change whether the text begins with a character that
  neither the pattern nor the replacement begins with.\<close>

lemma starts_replace_all:
  assumes "pat \<noteq> []" "rep \<noteq> []" "hd pat \<noteq> x" "hd rep \<noteq> x"
  shows "prefix [x] (replace_all pat rep xs) \<longleftrightarrow> prefix [x] xs"
proof (cases xs)
  case Nil
  then show ?thesis by simp
next
  case (Cons c cs)
  show ?thesis
  proof (cases "prefix pat (c # cs)")
    case True
    then have "c = hd pat" using assms(1) by (cases pat) auto
    moreover obtain r rs where "rep = r # rs" using assms(2) by (cases rep) auto
    ultimately show ?thesis using True assms Cons by auto
  next
    case False
    then show ?thesis using Cons by simp
  qed
qed

lemma replace_all_pair:
  "replace_all [b, x] rep (b # cs) =
     (if prefix [x] cs then rep @ replace_all [b, x] rep (tl cs)
      else b # replace_all [b, x] rep cs)"
  by (cases cs) auto

text \<open>How the three replacements together act on the front of a string.\<close>

lemma unescape_string_Nil: "unescape_string [] = []"
  by (simp add: unescape_string_def)

lemma unescape_string_other:
  "c \<noteq> bs \<Longrightarrow> unescape_string (c # cs) = c # unescape_string cs"
  by (simp add: unescape_string_def replace_all_other pat_rn_def pat_n_def pat_t_def)

lemma unescape_string_rn:
  "unescape_string (bs # CHR ''r'' # bs # CHR ''n'' # cs) = nl # unescape_string cs"
  by (simp add: unescape_string_def escape_chars)

lemma unescape_string_n:
  "unescape_string (bs # CHR ''n'' # cs) = nl # unescape_string cs"
  by (simp add: unescape_string_def escape_chars)

lemma unescape_string_t:
  "unescape_string (bs # CHR ''t'' # cs) = four_spaces @ unescape_string cs"
  by (simp add: unescape_string_def escape_chars)

lemma unescape_string_bs:
  assumes "\<not> prefix [CHR ''r'', bs, CHR ''n''] cs"
    and "\<not> prefix [CHR ''n''] cs"
    and "\<not> prefix [CHR ''t''] cs"
  shows "unescape_string (bs # cs) = bs # unescape_string cs"
proof -
  let ?a = "replace_all pat_rn [nl] cs"
  let ?b = "replace_all pat_n [nl] ?a"
  have 1: "replace_all pat_rn [nl] (bs # cs) = bs # ?a"
    using assms(1) by (simp add: pat_rn_def)
  have "\<not> prefix [CHR ''n''] ?a"
    using assms(2) by (simp add: starts_replace_all escape_chars)
  then have 2: "replace_all pat_n [nl] (bs # ?a) = bs # ?b"
    by (simp add: pat_n_def replace_all_pair)
  have "\<not> prefix [CHR ''t''] ?a"
    using assms(3) by (simp add: starts_replace_all escape_chars)
  then have "\<not> prefix [CHR ''t''] ?b"
    by (simp add: starts_replace_all escape_chars)
  then have 3: "replace_all pat_t four_spaces (bs # ?b) = bs # replace_all pat_t four_spaces ?b"
    by (simp add: pat_t_def replace_all_pair)
  show ?thesis
    by (simp only: unescape_string_def 1 2 3)
qed

text \<open>The six ways a string can begin, as the normalizer sees it.\<close>

lemma escape_cases [case_names Nil other rn n t bs]:
  obtains "s = []"
  | c cs where "s = c # cs" "c \<noteq> bs"
  | cs where "s = bs # CHR ''r'' # bs # CHR ''n'' # cs"
  | cs where "s = bs # CHR ''n'' # cs"
  | cs where "s = bs # CHR ''t'' # cs"
  | cs where "s = bs # cs" "\<not> prefix [CHR ''r'', bs, CHR ''n''] cs"
      "\<not> prefix [CHR ''n''] cs" "\<not> prefix [CHR ''t''] cs"
proof (cases s)
  case Nil
  then show ?thesis using that(1) by simp
next
  case (Cons c cs)
  show ?thesis
  proof (cases "c = bs")
    case False
    then show ?thesis using Cons that(2) by simp
  next
    case True
    show ?thesis
    proof (cases "prefix [CHR ''r'', bs, CHR ''n''] cs")
      case True
      then obtain r where "cs = [CHR ''r'', bs, CHR ''n''] @ r" by (auto simp: prefix_def)
      then show ?thesis using Cons \<open>c = bs\<close> that(3) by simp
    next
      case nrn: False
      show ?thesis
      proof (cases "prefix [CHR ''n''] cs")
        case True
        then obtain r where "cs = [CHR ''n''] @ r" by (auto simp: prefix_def)
        then show ?thesis using Cons \<open>c = bs\<close> that(4) by simp
      next
        case nn: False
        show ?thesis
        proof (cases "prefix [CHR ''t''] cs")
          case True
          then obtain r where "cs = [CHR ''t''] @ r" by (auto simp: prefix_def)
          then show ?thesis using Cons \<open>c = bs\<close> that(5) by simp
        next
          case False
          then show ?thesis using Cons \<open>c = bs\<close> nrn nn that(6) by simp
        qed
      qed
    qed
  qed
qed

text \<open>The one pass of the specification acts on the front in the same way.\<close>

lemma unescape_scan_other:
  "c \<noteq> bs \<Longrightarrow> unescape_scan (c # cs) = c # unescape_scan cs"
  by (simp add: pat_rn_def pat_n_def pat_t_def)

lemma unescape_scan_rn:
  "unescape_scan (bs # CHR ''r'' # bs # CHR ''n'' # cs) = nl # unescape_scan cs"
  by (simp add: pat_rn_def)

lemma unescape_scan_n:
  "unescape_scan (bs # CHR ''n'' # cs) = nl # unescape_scan cs"
  by (simp add: pat_rn_def pat_n_def)

lemma unescape_scan_t:
  "unescape_scan (bs # CHR ''t'' # cs) = four_spaces @ unescape_scan cs"
  by (simp add: pat_rn_def pat_n_def pat_t_def)

lemma unescape_scan_bs:
  assumes "\<not> prefix [CHR ''r'', bs, CHR ''n''] cs"
    and "\<not> prefix [CHR ''n''] cs"
    and "\<not> prefix [CHR ''t''] cs"
  shows "unescape_scan (bs # cs) = bs # unescape_scan cs"
  using assms by (simp add: pat_rn_def pat_n_def pat_t_def)

text \<open>The three passes of the source are the one pass of the specification.\<close>

lemma unescape_string_scan: "unescape_string s = unescape_scan s"
proof (induction s rule: length_induct)
  case (1 s)
  show ?case
  proof (cases s rule: escape_cases)
    case Nil
    then show ?thesis by (simp add: unescape_string_Nil)
  next
    case (other c cs)
    then have "unescape_string cs = unescape_scan cs" using "1.IH" by simp
    then show ?thesis using other
      by (simp add: unescape_string_other unescape_scan_other del: unescape_scan.simps)
  next
    case (rn cs)
    then have "unescape_string cs = unescape_scan cs" using "1.IH" by simp
    then show ?thesis using rn
      by (simp add: unescape_string_rn unescape_scan_rn del: unescape_scan.simps)
  next
    case (n cs)
    then have "unescape_string cs = unescape_scan cs" using "1.IH" by simp
    then show ?thesis using n
      by (simp add: unescape_string_n unescape_scan_n del: unescape_scan.simps)
  next
    case (t cs)
    then have "unescape_string cs = unescape_scan cs" using "1.IH" by simp
    then show ?thesis using t
      by (simp add: unescape_string_t unescape_scan_t del: unescape_scan.simps)
  next
    case (bs cs)
    then have "unescape_string cs = unescape_scan cs" using "1.IH" by simp
    then show ?thesis using bs
      by (simp add: unescape_string_bs unescape_scan_bs del: unescape_scan.simps)
  qed
qed

text \<open>Whether the result begins with a letter is decided by the input.\<close>

lemma starts_unescape_string:
  assumes "x \<noteq> bs" "x \<noteq> nl" "x \<noteq> CHR '' ''"
  shows "prefix [x] (unescape_string s) \<longleftrightarrow> prefix [x] s"
proof (cases s rule: escape_cases)
  case Nil
  then show ?thesis by (simp add: unescape_string_Nil)
next
  case (other c cs)
  then show ?thesis by (simp add: unescape_string_other)
next
  case (rn cs)
  then show ?thesis using assms by (simp add: unescape_string_rn)
next
  case (n cs)
  then show ?thesis using assms by (simp add: unescape_string_n)
next
  case (t cs)
  then show ?thesis using assms by (simp add: unescape_string_t four_spaces_def)
next
  case (bs cs)
  then show ?thesis using assms by (simp add: unescape_string_bs)
qed

text \<open>No backslash followed by \<open>n\<close> or \<open>t\<close> is left in the result.\<close>

lemma no_pair_unescape_string:
  assumes "x = CHR ''n'' \<or> x = CHR ''t''"
  shows "\<not> sublist [bs, x] (unescape_string s)"
proof (induction s rule: length_induct)
  case (1 s)
  have x: "x \<noteq> bs" "x \<noteq> nl" "x \<noteq> CHR '' ''" using assms by (auto simp: escape_chars)
  have nlbs: "nl \<noteq> bs" "CHR '' '' \<noteq> bs" by (simp_all add: escape_chars)
  show ?case
  proof (cases s rule: escape_cases)
    case Nil
    then show ?thesis by (simp add: unescape_string_Nil)
  next
    case (other c cs)
    then have "\<not> sublist [bs, x] (unescape_string cs)" using "1.IH" by simp
    then show ?thesis using other by (simp add: unescape_string_other sublist_Cons_right)
  next
    case (rn cs)
    then have "\<not> sublist [bs, x] (unescape_string cs)" using "1.IH" by simp
    then show ?thesis using rn nlbs by (simp add: unescape_string_rn sublist_Cons_right)
  next
    case (n cs)
    then have "\<not> sublist [bs, x] (unescape_string cs)" using "1.IH" by simp
    then show ?thesis using n nlbs by (simp add: unescape_string_n sublist_Cons_right)
  next
    case (t cs)
    then have "\<not> sublist [bs, x] (unescape_string cs)" using "1.IH" by simp
    then show ?thesis using t nlbs
      by (simp add: unescape_string_t four_spaces_def sublist_Cons_right)
  next
    case (bs cs)
    then have ih: "\<not> sublist [bs, x] (unescape_string cs)" using "1.IH" by simp
    have "\<not> prefix [x] cs" using bs assms by auto
    then have "\<not> prefix [x] (unescape_string cs)" using x by (simp add: starts_unescape_string)
    then show ?thesis using bs ih by (simp add: unescape_string_bs sublist_Cons_right)
  qed
qed

text \<open>A string without the two-character sequences is left as it is.\<close>

lemma unescape_string_id:
  assumes "\<not> sublist pat_n s" "\<not> sublist pat_t s"
  shows "unescape_string s = s"
  using assms
proof (induction s)
  case Nil
  show ?case by (simp add: unescape_string_Nil)
next
  case (Cons c cs)
  have np: "\<not> prefix [bs, CHR ''n''] (c # cs)" "\<not> prefix [bs, CHR ''t''] (c # cs)"
    and ih: "unescape_string cs = cs"
    using Cons by (auto simp: sublist_Cons_right pat_n_def pat_t_def)
  show ?case
  proof (cases "c = bs")
    case False
    then show ?thesis using ih by (simp add: unescape_string_other)
  next
    case True
    have "\<not> prefix [CHR ''r'', bs, CHR ''n''] cs"
    proof
      assume "prefix [CHR ''r'', bs, CHR ''n''] cs"
      then obtain r where "cs = [CHR ''r'', bs, CHR ''n''] @ r" by (auto simp: prefix_def)
      then have "cs = [CHR ''r''] @ pat_n @ r" by (simp add: pat_n_def)
      then have "sublist pat_n cs" unfolding sublist_def by blast
      then show False using Cons.prems by (simp add: sublist_Cons_right)
    qed
    then show ?thesis using True np ih by (simp add: unescape_string_bs)
  qed
qed

text \<open>Two backslashes in a row: the first one is kept and the text is normalized on
  both sides of it, whatever precedes.\<close>

lemma not_prefix3_append:
  assumes "\<not> prefix [a, b, c] cs" "z \<noteq> a" "z \<noteq> c"
  shows "\<not> prefix [a, b, c] (cs @ z # z # rest)"
proof (cases cs)
  case Nil
  then show ?thesis using assms by simp
next
  case c1: (Cons x1 l1)
  show ?thesis
  proof (cases l1)
    case Nil
    then show ?thesis using assms c1 by auto
  next
    case c2: (Cons x2 l2)
    show ?thesis
    proof (cases l2)
      case Nil
      then show ?thesis using assms c1 c2 by auto
    next
      case (Cons x3 l3)
      then show ?thesis using assms c1 c2 by auto
    qed
  qed
qed

lemma not_prefix1_append:
  assumes "\<not> prefix [a] cs" "z \<noteq> a"
  shows "\<not> prefix [a] (cs @ z # rest)"
  using assms by (cases cs) auto

lemma unescape_string_append_bs:
  "unescape_string (xs @ bs # bs # rest) = unescape_string xs @ bs # unescape_string (bs # rest)"
proof (induction xs rule: length_induct)
  case (1 xs)
  show ?case
  proof (cases xs rule: escape_cases)
    case Nil
    have "unescape_string (bs # bs # rest) = bs # unescape_string (bs # rest)"
      by (rule unescape_string_bs) (simp_all add: bs_def)
    then show ?thesis using Nil by (simp add: unescape_string_Nil)
  next
    case (other c cs)
    then show ?thesis using "1.IH" by (simp add: unescape_string_other)
  next
    case (rn cs)
    then show ?thesis using "1.IH" by (simp add: unescape_string_rn)
  next
    case (n cs)
    then show ?thesis using "1.IH" by (simp add: unescape_string_n)
  next
    case (t cs)
    then show ?thesis using "1.IH" by (simp add: unescape_string_t)
  next
    case (bs cs)
    let ?Z = "bs # bs # rest"
    have a: "\<not> prefix [CHR ''r'', bs, CHR ''n''] (cs @ ?Z)"
      using bs(2) by (rule not_prefix3_append) (simp_all add: bs_def)
    have b: "\<not> prefix [CHR ''n''] (cs @ ?Z)"
      using bs(3) by (rule not_prefix1_append) (simp add: bs_def)
    have c: "\<not> prefix [CHR ''t''] (cs @ ?Z)"
      using bs(4) by (rule not_prefix1_append) (simp add: bs_def)
    have "unescape_string (cs @ ?Z) = unescape_string cs @ bs # unescape_string (bs # rest)"
      using "1.IH" bs(1) by simp
    then show ?thesis using bs a b c by (simp add: unescape_string_bs)
  qed
qed

lemma unescapeNewlinesAndTabs_string:
  "unescapeNewlinesAndTabs (JStr s) = Inr (unescape_string s)"
  by (simp add: unescapeNewlinesAndTabs_def unescape_string_Nil)

text \<open>
  C4. \<open>unescapeNewlinesAndTabs\<close> maps \<open>null\<close>, \<open>undefined\<close> and the empty string to
  the empty string. On a string it is the one pass that replaces every sequence
  backslash-\<open>r\<close>-backslash-\<open>n\<close> and every backslash-\<open>n\<close> by one newline and every
  backslash-\<open>t\<close> by four spaces, and none of these sequences is left in the result. A
  string that holds none of them is returned as it is, also when normalized twice.
\<close>

theorem unescapeNewlinesAndTabs_normalizes:
  "unescapeNewlinesAndTabs JNull = Inr []
   \<and> unescapeNewlinesAndTabs JUndefined = Inr []
   \<and> unescapeNewlinesAndTabs (JStr []) = Inr []
   \<and> unescapeNewlinesAndTabs (JStr s) = Inr (unescape_scan s)
   \<and> \<not> sublist pat_rn (unescape_scan s)
   \<and> \<not> sublist pat_n (unescape_scan s)
   \<and> \<not> sublist pat_t (unescape_scan s)
   \<and> (\<not> sublist pat_rn s \<and> \<not> sublist pat_n s \<and> \<not> sublist pat_t s \<longrightarrow>
        unescapeNewlinesAndTabs (JStr s) = Inr s
        \<and> bind_exn (unescapeNewlinesAndTabs (JStr s)) (\<lambda>r. unescapeNewlinesAndTabs (JStr r))
            = Inr s)
   \<and> unescapeNewlinesAndTabs (JStr [CHR ''a'', bs, CHR ''n'', CHR ''b''])
       = Inr [CHR ''a'', nl, CHR ''b'']
   \<and> unescapeNewlinesAndTabs (JStr [CHR ''a'', bs, CHR ''r'', bs, CHR ''n'', CHR ''b''])
       = Inr [CHR ''a'', nl, CHR ''b'']
   \<and> unescapeNewlinesAndTabs (JStr [CHR ''a'', bs, CHR ''t'', CHR ''b'']) = Inr ''a    b''"
proof -
  have n: "\<not> sublist pat_n (unescape_scan s)"
    unfolding pat_n_def unescape_string_scan [symmetric]
    by (rule no_pair_unescape_string) simp
  have t: "\<not> sublist pat_t (unescape_scan s)"
    unfolding pat_t_def unescape_string_scan [symmetric]
    by (rule no_pair_unescape_string) simp
  have "sublist pat_n pat_rn"
  proof -
    have "pat_rn = [bs, CHR ''r''] @ pat_n @ []" by (simp add: pat_rn_def pat_n_def)
    then show ?thesis unfolding sublist_def by blast
  qed
  then have rn: "\<not> sublist pat_rn (unescape_scan s)"
    using n sublist_order.order_trans by blast
  have str: "unescapeNewlinesAndTabs (JStr s) = Inr (unescape_scan s)"
    by (simp add: unescapeNewlinesAndTabs_string unescape_string_scan)
  have fixed: "\<not> sublist pat_rn s \<and> \<not> sublist pat_n s \<and> \<not> sublist pat_t s \<longrightarrow>
        unescapeNewlinesAndTabs (JStr s) = Inr s
        \<and> bind_exn (unescapeNewlinesAndTabs (JStr s)) (\<lambda>r. unescapeNewlinesAndTabs (JStr r))
            = Inr s"
  proof
    assume "\<not> sublist pat_rn s \<and> \<not> sublist pat_n s \<and> \<not> sublist pat_t s"
    then have "unescape_string s = s" by (simp add: unescape_string_id)
    then show "unescapeNewlinesAndTabs (JStr s) = Inr s
        \<and> bind_exn (unescapeNewlinesAndTabs (JStr s)) (\<lambda>r. unescapeNewlinesAndTabs (JStr r))
            = Inr s"
      by (simp add: unescapeNewlinesAndTabs_string bind_exn_def)
  qed
  have falsy: "unescapeNewlinesAndTabs JNull = Inr []" "unescapeNewlinesAndTabs JUndefined = Inr []"
    "unescapeNewlinesAndTabs (JStr []) = Inr []"
    by (simp_all add: unescapeNewlinesAndTabs_def)
  have ex: "unescapeNewlinesAndTabs (JStr [CHR ''a'', bs, CHR ''n'', CHR ''b''])
       = Inr [CHR ''a'', nl, CHR ''b'']"
    "unescapeNewlinesAndTabs (JStr [CHR ''a'', bs, CHR ''r'', bs, CHR ''n'', CHR ''b''])
       = Inr [CHR ''a'', nl, CHR ''b'']"
    "unescapeNewlinesAndTabs (JStr [CHR ''a'', bs, CHR ''t'', CHR ''b'']) = Inr ''a    b''"
    by (simp_all add: unescapeNewlinesAndTabs_string unescape_string_def escape_chars)
  show ?thesis
    using falsy str rn n t fixed ex by blast
qed

theorem unescapeNewlinesAndTabs_normalizes_witness:
  "(\<not> sublist pat_rn ''a b'' \<and> \<not> sublist pat_n ''a b'' \<and> \<not> sublist pat_t ''a b'')
   \<and> unescapeNewlinesAndTabs (JStr ''a b'') = Inr ''a b''
   \<and> bind_exn (unescapeNewlinesAndTabs (JStr ''a b'')) (\<lambda>r. unescapeNewlinesAndTabs (JStr r))
       = Inr ''a b''"
  using unescapeNewlinesAndTabs_normalizes [of "''a b''"]
  by (simp add: escape_chars sublist_Cons_right bind_exn_def)

text \<open>
  C10. A backslash before the pair backslash-\<open>n\<close> does not protect it: whatever
  stands before and behind, the first backslash is kept and the pair becomes a
  newline; the five characters \<open>a\<close>, backslash, backslash, \<open>n\<close>, \<open>b\<close> give \<open>a\<close>,
  backslash, newline, \<open>b\<close>.
\<close>

theorem doubled_backslash_not_protected:
  "unescape_string (xs @ bs # bs # CHR ''n'' # ys)
     = unescape_string xs @ bs # nl # unescape_string ys
   \<and> unescapeNewlinesAndTabs (JStr (xs @ bs # bs # CHR ''n'' # ys))
       = Inr (unescape_string xs @ bs # nl # unescape_string ys)
   \<and> unescapeNewlinesAndTabs (JStr [CHR ''a'', bs, bs, CHR ''n'', CHR ''b''])
       = Inr [CHR ''a'', bs, nl, CHR ''b'']"
proof -
  have g: "unescape_string (xs @ bs # bs # CHR ''n'' # ys)
             = unescape_string xs @ bs # nl # unescape_string ys" for xs ys
    by (simp add: unescape_string_append_bs unescape_string_n)
  have "unescape_string ([CHR ''a''] @ bs # bs # CHR ''n'' # [CHR ''b''])
          = unescape_string [CHR ''a''] @ bs # nl # unescape_string [CHR ''b'']"
    by (rule g)
  then have e: "unescape_string [CHR ''a'', bs, bs, CHR ''n'', CHR ''b'']
                  = [CHR ''a'', bs, nl, CHR ''b'']"
    by (simp add: unescape_string_other unescape_string_Nil bs_def)
  show ?thesis
    using g e by (simp add: unescapeNewlinesAndTabs_string)
qed

section \<open>Properties of the renderings\<close>

lemma outputContentUnescaped_eq:
  "outputContentUnescaped raw =
     (case lookup_path raw [Key ''output'', Key ''content''] of
        JStr c \<Rightarrow> unescape_string c
      | _ \<Rightarrow> [])"
proof (cases "lookup_path raw [Key ''output'', Key ''content'']")
  case (JNum n)
  then show ?thesis
    by (cases n) (simp_all add: outputContentUnescaped_def lookup_path_def unescapeNewlinesAndTabs_def)
qed (simp_all add: outputContentUnescaped_def lookup_path_def unescapeNewlinesAndTabs_def
       unescape_string_Nil)

text \<open>
  C5 as stated fails: for a response of the OpenAI shape, whose extracted text is
  \<open>A\<close>, the content rendering shows the placeholder.
\<close>

theorem content_rendering_ignores_choices:
  "unescapeNewlinesAndTabs (JStr (extractAssistantText openai_shape)) = Inr ''A''
   \<and> content_rendering openai_shape = placeholder_dash
   \<and> placeholder_dash \<noteq> ''A''"
  by (simp add: openai_shape_def extractAssistantText_def extractAssistantText_try_def
                opt_member_def opt_index_def nullish_def own_property_def
                unescapeNewlinesAndTabs_def unescape_string_def escape_chars
                content_rendering_def outputContentUnescaped_def placeholder_dash_def)

text \<open>
  C5, amended. The content rendering of the response toggle is the normalized
  \<open>output.content\<close> of the raw response when that is a string, read from that field
  alone and not from the other shapes the extractor knows; the placeholder dash is
  shown when it is empty or when the field is no string.
\<close>

theorem content_rendering_output_content:
  "content_rendering raw =
     (case lookup_path raw [Key ''output'', Key ''content''] of
        JStr c \<Rightarrow> if unescape_string c = [] then placeholder_dash else unescape_string c
      | _ \<Rightarrow> placeholder_dash)
   \<and> response_pane B (st\<lparr> responseView := ContentView \<rparr>) = content_rendering (rawResponse st)"
  by (simp add: content_rendering_def outputContentUnescaped_eq response_pane_def
           split: jsval.splits)

section \<open>Properties of malformed responses\<close>

text \<open>
  C8 as stated fails: a successful response whose body is no JSON text sets an error
  message, and no raw response is stored.
\<close>

theorem invalid_json_is_an_error:
  "error (handleSend_settle (fst (handleSend_begin initial_state))
            (Resolved invalid_json_response))
     = Some ''Unexpected token < in JSON at position 0''
   \<and> rawResponse (handleSend_settle (fst (handleSend_begin initial_state))
                    (Resolved invalid_json_response)) = JNull
   \<and> responseJsonString example_builtins
        (rawResponse (handleSend_settle (fst (handleSend_begin initial_state))
                        (Resolved invalid_json_response))) = placeholder_dash"
  by (simp add: handleSend_settle_def handleSend_begin_def handleSend_try_def
                invalid_json_response_def catch_message_def initial_state_def
                responseJsonString_def)

text \<open>
  C8, amended. When the body is JSON of a shape that no probe recognizes, no error is
  set, the extracted text is empty and the parsed value is stored as the raw
  response, which the JSON view renders when the value is truthy. When the body is no
  JSON text, the failure of the parser is the error message of the session and the
  raw response stays cleared.
\<close>

theorem malformed_response_handling:
  "(ok r \<and> body_json r = Inr d
      \<and> first_nonempty_string (map (lookup_path d) probe_paths) = [] \<longrightarrow>
        error (handleSend_settle (fst (handleSend_begin st)) (Resolved r)) = None
        \<and> assistantText (handleSend_settle (fst (handleSend_begin st)) (Resolved r)) = []
        \<and> rawResponse (handleSend_settle (fst (handleSend_begin st)) (Resolved r)) = d
        \<and> loading (handleSend_settle (fst (handleSend_begin st)) (Resolved r)) = False
        \<and> (\<not> falsy d \<longrightarrow>
             response_pane B
               ((handleSend_settle (fst (handleSend_begin st)) (Resolved r))
                  \<lparr> responseView := JsonView \<rparr>)
             = (case stringify B d of Inr s \<Rightarrow> s | Inl e \<Rightarrow> to_string B d)))
   \<and> (ok r \<and> body_json r = Inl e \<longrightarrow>
        error (handleSend_settle (fst (handleSend_begin st)) (Resolved r))
          = Some (catch_message e)
        \<and> rawResponse (handleSend_settle (fst (handleSend_begin st)) (Resolved r)) = JNull
        \<and> loading (handleSend_settle (fst (handleSend_begin st)) (Resolved r)) = False)"
proof (intro conjI impI)
  assume a: "ok r \<and> body_json r = Inl e"
  then have t: "handleSend_try (Resolved r) = Inl e" by (simp add: handleSend_try_def)
  show "error (handleSend_settle (fst (handleSend_begin st)) (Resolved r)) = Some (catch_message e)"
    by (simp add: handleSend_settle_def t)
  show "rawResponse (handleSend_settle (fst (handleSend_begin st)) (Resolved r)) = JNull"
    by (simp add: handleSend_settle_def t handleSend_begin_def)
  show "loading (handleSend_settle (fst (handleSend_begin st)) (Resolved r)) = False"
    by (simp add: handleSend_settle_def t)
next
  assume a: "ok r \<and> body_json r = Inr d
      \<and> first_nonempty_string (map (lookup_path d) probe_paths) = []"
  then have t: "handleSend_try (Resolved r) = Inr d" by (simp add: handleSend_try_def)
  have x: "extractAssistantText d = []"
    using a by (simp add: extractAssistantText_def extractAssistantText_try_eq)
  show "error (handleSend_settle (fst (handleSend_begin st)) (Resolved r)) = None"
    by (simp add: handleSend_settle_def t handleSend_begin_def)
  show "assistantText (handleSend_settle (fst (handleSend_begin st)) (Resolved r)) = []"
    by (simp add: handleSend_settle_def t x)
  show raw: "rawResponse (handleSend_settle (fst (handleSend_begin st)) (Resolved r)) = d"
    by (simp add: handleSend_settle_def t)
  show "loading (handleSend_settle (fst (handleSend_begin st)) (Resolved r)) = False"
    by (simp add: handleSend_settle_def t)
  assume "\<not> falsy d"
  then show "response_pane B
               ((handleSend_settle (fst (handleSend_begin st)) (Resolved r))
                  \<lparr> responseView := JsonView \<rparr>)
             = (case stringify B d of Inr s \<Rightarrow> s | Inl e \<Rightarrow> to_string B d)"
    by (simp add: response_pane_def responseJsonString_def raw)
qed

theorem malformed_response_handling_witness:
  "(ok empty_object_response \<and> body_json empty_object_response = Inr (JObj [])
      \<and> first_nonempty_string (map (lookup_path (JObj [])) probe_paths) = []
      \<and> \<not> falsy (JObj []))
   \<and> error (handleSend_settle (fst (handleSend_begin initial_state))
              (Resolved empty_object_response)) = None
   \<and> assistantText (handleSend_settle (fst (handleSend_begin initial_state))
                      (Resolved empty_object_response)) = []
   \<and> rawResponse (handleSend_settle (fst (handleSend_begin initial_state))
                    (Resolved empty_object_response)) = JObj []
   \<and> response_pane example_builtins
        ((handleSend_settle (fst (handleSend_begin initial_state))
            (Resolved empty_object_response)) \<lparr> responseView := JsonView \<rparr>) = ''{}''
   \<and> (ok invalid_json_response
        \<and> body_json invalid_json_response
            = Inl (JsError ''Unexpected token < in JSON at position 0''))
   \<and> error (handleSend_settle (fst (handleSend_begin initial_state))
              (Resolved invalid_json_response))
       = Some ''Unexpected token < in JSON at position 0''"
  using malformed_response_handling
          [of empty_object_response "JObj []" initial_state example_builtins
              "JsError ''never''"]
        malformed_response_handling
          [of invalid_json_response JNull initial_state example_builtins
              "JsError ''Unexpected token < in JSON at position 0''"]
  by (simp add: empty_object_response_def invalid_json_response_def probe_paths_def
                lookup_path_def opt_member_def opt_index_def nullish_def own_property_def
                example_builtins_def catch_message_def)

section \<open>One request at a time\<close>

lemma step_inv: "session_inv s \<Longrightarrow> session_inv (step B s e)"
proof (cases e)
  case ClickSend
  assume "session_inv s"
  then show ?thesis using ClickSend
    by (auto simp: session_inv_def click_send_def send_disabled_def handleSend_begin_def)
next
  case (FetchSettled outcome)
  assume "session_inv s"
  then show ?thesis using FetchSettled
    by (auto simp: session_inv_def handleSend_settle_def split: sum.splits)
next
  case ResponseArrived
  assume "session_inv s"
  then show ?thesis using ResponseArrived by (simp add: session_inv_def)
next
  case (TimePasses d)
  assume "session_inv s"
  then show ?thesis using TimePasses
    by (auto simp: session_inv_def handleSend_settle_def split: sum.splits option.splits)
next
  case (PromptChanged p)
  assume "session_inv s"
  then show ?thesis using PromptChanged by (simp add: session_inv_def)
next
  case (ViewToggled c)
  assume "session_inv s"
  then show ?thesis using ViewToggled by (simp add: session_inv_def)
qed

lemma run_inv: "session_inv s \<Longrightarrow> session_inv (run B s es)"
  unfolding run_def by (induction es arbitrary: s) (simp_all add: step_inv)

lemma initial_inv: "session_inv initial_session"
  by (simp add: session_inv_def initial_session_def initial_state_def)

text \<open>
  C9. In every session at most one call is in flight; while one is, the send button
  is disabled and a click on it changes nothing and issues no call; a click in a
  loading state returns the state unchanged and no request.
\<close>

theorem send_while_pending_is_noop:
  "in_flight (run B initial_session es) \<le> 1
   \<and> (0 < in_flight (run B initial_session es) \<longrightarrow>
        send_disabled B (app (run B initial_session es))
        \<and> step B (run B initial_session es) ClickSend = run B initial_session es)
   \<and> (loading st \<longrightarrow> click_send B st = (st, None))"
proof -
  let ?s = "run B initial_session es"
  have inv: "session_inv ?s" by (rule run_inv) (rule initial_inv)
  have 1: "in_flight ?s \<le> 1" using inv by (simp add: session_inv_def)
  have 2: "send_disabled B (app ?s) \<and> step B ?s ClickSend = ?s" if "0 < in_flight ?s"
  proof -
    have "loading (app ?s)" using inv that by (auto simp: session_inv_def)
    then show ?thesis by (simp add: send_disabled_def click_send_def)
  qed
  have 3: "click_send B st = (st, None)" if "loading st"
    using that by (simp add: click_send_def send_disabled_def)
  show ?thesis using 1 2 3 by blast
qed

theorem send_while_pending_is_noop_witness:
  "0 < in_flight (run example_builtins initial_session [ClickSend])
   \<and> in_flight (run example_builtins initial_session [ClickSend, ClickSend]) = 1
   \<and> step example_builtins (run example_builtins initial_session [ClickSend]) ClickSend
       = run example_builtins initial_session [ClickSend]
   \<and> loading (fst (handleSend_begin initial_state))
   \<and> click_send example_builtins (fst (handleSend_begin initial_state))
       = (fst (handleSend_begin initial_state), None)"
proof -
  have t: "ascii_trim (prompt initial_state) \<noteq> []"
    by (simp add: initial_state_def ascii_trim_def ascii_space_def)
  have r: "in_flight (run example_builtins initial_session [ClickSend]) = 1"
    using t by (simp add: run_def initial_session_def click_send_def send_disabled_def
                  example_builtins_def initial_state_def)
  have l: "loading (fst (handleSend_begin initial_state))"
    by (simp add: handleSend_begin_def)
  show ?thesis
    using send_while_pending_is_noop
            [of example_builtins "[ClickSend]" "fst (handleSend_begin initial_state)"] r l
    by (simp add: run_def)
qed

section \<open>The deadline\<close>

lemma awaiting_quiet_step:
  assumes "awaiting t s" "quiet e" "elapsed [e] < t"
  shows "awaiting (t - elapsed [e]) (step B s e)"
proof (cases e)
  case ClickSend
  then show ?thesis using assms
    by (simp add: awaiting_def click_send_def send_disabled_def)
next
  case ResponseArrived
  then show ?thesis using assms by simp
next
  case (FetchSettled outcome)
  then show ?thesis using assms by simp
next
  case (TimePasses d)
  then show ?thesis using assms by (simp add: awaiting_def)
next
  case (PromptChanged p)
  then show ?thesis using assms by (simp add: awaiting_def)
next
  case (ViewToggled c)
  then show ?thesis using assms by (simp add: awaiting_def)
qed

lemma elapsed_Cons: "elapsed (e # es) = elapsed [e] + elapsed es"
  by (cases e) simp_all

lemma awaiting_quiet_run:
  "awaiting t s \<Longrightarrow> list_all quiet es \<Longrightarrow> elapsed es < t
     \<Longrightarrow> awaiting (t - elapsed es) (run B s es)"
proof (induction es arbitrary: t s)
  case Nil
  then show ?case by (simp add: run_def)
next
  case (Cons e es)
  have el: "elapsed (e # es) = elapsed [e] + elapsed es" by (rule elapsed_Cons)
  have 1: "awaiting (t - elapsed [e]) (step B s e)"
    using Cons.prems el by (intro awaiting_quiet_step) simp_all
  have "awaiting (t - elapsed [e] - elapsed es) (run B (step B s e) es)"
    using Cons.prems el by (intro Cons.IH [OF 1]) simp_all
  then show ?case using el by (simp add: run_def)
qed

lemma run_snoc: "run B s (es @ [e]) = step B (run B s es) e"
  by (simp add: run_def)

lemma awaiting_deadline:
  assumes "awaiting t s" "t \<le> d"
  shows "step B s (TimePasses d) =
           \<lparr> app = (app s)\<lparr> error := Some (catch_message (DOMException ''AbortError''
                                     ''The operation was aborted.'')),
                            loading := False \<rparr>,
             in_flight = 0, abort_timer = None \<rparr>"
  using assms
  by (simp add: awaiting_def handleSend_settle_def handleSend_try_def abort_rejection_def)

lemma click_awaiting:
  assumes "session_inv s" "\<not> send_disabled B (app s)"
  shows "awaiting FETCH_TIMEOUT_MS (step B s ClickSend)"
proof -
  have "\<not> loading (app s)" using assms(2) by (simp add: send_disabled_def)
  then have "in_flight s = 0" using assms(1) by (auto simp: session_inv_def)
  then show ?thesis using assms(2)
    by (simp add: click_send_def awaiting_def handleSend_begin_def)
qed

text \<open>
  C6. A send arms the abort timer with 120000 ms. From then on, as long as no
  response arrives and the call does not settle, the session stays loading with its
  one call in flight; when 120000 ms have passed in this way the timer aborts the
  call, and the session is Failed: no call in flight, not loading, no raw response,
  no text, and the error message \<open>Request timed out after 120s\<close>, which carries the
  timeout in seconds.
\<close>

theorem timeout_fails_with_seconds:
  assumes "\<not> send_disabled B (app (run B initial_session before))"
    and "list_all quiet es"
    and "elapsed es < 120000"
    and "120000 \<le> elapsed es + d"
  shows "abort_timer (step B (run B initial_session before) ClickSend) = Some 120000
    \<and> loading (app (run B (step B (run B initial_session before) ClickSend) es))
    \<and> in_flight (run B (step B (run B initial_session before) ClickSend) es) = 1
    \<and> in_flight (run B (step B (run B initial_session before) ClickSend)
                   (es @ [TimePasses d])) = 0
    \<and> loading (app (run B (step B (run B initial_session before) ClickSend)
                      (es @ [TimePasses d]))) = False
    \<and> error (app (run B (step B (run B initial_session before) ClickSend)
                    (es @ [TimePasses d])))
        = Some ''Request timed out after 120s''
    \<and> sublist ''120'' ''Request timed out after 120s''
    \<and> rawResponse (app (run B (step B (run B initial_session before) ClickSend)
                          (es @ [TimePasses d]))) = JNull
    \<and> assistantText (app (run B (step B (run B initial_session before) ClickSend)
                            (es @ [TimePasses d]))) = []"
proof -
  let ?s0 = "run B initial_session before"
  let ?s1 = "step B ?s0 ClickSend"
  let ?s2 = "run B ?s1 es"
  have inv: "session_inv ?s0" by (rule run_inv) (rule initial_inv)
  have a1: "awaiting 120000 ?s1"
    using click_awaiting [OF inv assms(1)] by (simp add: FETCH_TIMEOUT_MS_def)
  have a2: "awaiting (120000 - elapsed es) ?s2"
    using a1 assms(2,3) by (rule awaiting_quiet_run)
  have le: "120000 - elapsed es \<le> d" using assms(4) by simp
  have fin: "run B ?s1 (es @ [TimePasses d]) =
          \<lparr> app = (app ?s2)\<lparr> error := Some (catch_message (DOMException ''AbortError''
                                     ''The operation was aborted.'')),
                            loading := False \<rparr>,
             in_flight = 0, abort_timer = None \<rparr>"
    unfolding run_snoc by (rule awaiting_deadline [OF a2 le])
  have msg: "catch_message (DOMException ''AbortError'' ''The operation was aborted.'')
               = ''Request timed out after 120s''"
    by (simp add: catch_message_def FETCH_TIMEOUT_MS_def show_nat_120)
  have "sublist ''120'' (''Request timed out after '' @ ''120'' @ ''s'')"
    by (rule sublist_appendI)
  then have sub: "sublist ''120'' ''Request timed out after 120s''" by simp
  show ?thesis
    using a1 a2 sub unfolding fin msg by (simp add: awaiting_def)
qed

theorem timeout_fails_with_seconds_witness:
  "\<not> send_disabled example_builtins (app (run example_builtins initial_session []))
   \<and> list_all quiet [TimePasses 60000, ClickSend, PromptChanged ''x'', TimePasses 59999]
   \<and> elapsed [TimePasses 60000, ClickSend, PromptChanged ''x'', TimePasses 59999] < 120000
   \<and> 120000 \<le> elapsed [TimePasses 60000, ClickSend, PromptChanged ''x'', TimePasses 59999] + 1
   \<and> loading (app (run example_builtins
                      (step example_builtins (run example_builtins initial_session [])
                         ClickSend)
                      [TimePasses 60000, ClickSend, PromptChanged ''x'', TimePasses 59999]))
   \<and> loading (app (run example_builtins
                      (step example_builtins (run example_builtins initial_session [])
                         ClickSend)
                      ([TimePasses 60000, ClickSend, PromptChanged ''x'', TimePasses 59999]
                         @ [TimePasses 1]))) = False
   \<and> error (app (run example_builtins
                    (step example_builtins (run example_builtins initial_session [])
                       ClickSend)
                    ([TimePasses 60000, ClickSend, PromptChanged ''x'', TimePasses 59999]
                       @ [TimePasses 1])))
       = Some ''Request timed out after 120s''"
proof -
  have t: "ascii_trim (prompt initial_state) \<noteq> []"
    by (simp add: initial_state_def ascii_trim_def ascii_space_def)
  have h: "\<not> send_disabled example_builtins (app (run example_builtins initial_session []))"
    using t by (simp add: run_def initial_session_def send_disabled_def example_builtins_def
                  initial_state_def)
  have q: "list_all quiet [TimePasses 60000, ClickSend, PromptChanged ''x'', TimePasses 59999]"
    by simp
  have e1: "elapsed [TimePasses 60000, ClickSend, PromptChanged ''x'', TimePasses 59999] < 120000"
    by simp
  have e2: "120000 \<le> elapsed [TimePasses 60000, ClickSend, PromptChanged ''x'', TimePasses 59999] + 1"
    by simp
  show ?thesis
    using h q e1 e2 timeout_fails_with_seconds [OF h q e1 e2] by blast
qed

end
